theory Spec2Isabelle
  imports Main
begin

section \<open>Python values: exceptions, indexing and slicing\<close>

text \<open>
  The exceptions that the functions of \<^verbatim>\<open>utilities/coref_dataset.py\<close> can raise.
  A computation that may raise has the type \<open>error + 'a\<close>, with \<open>Inl\<close> the exception.
  \<open>OtherError\<close> stands for any exception of the persistence layer that is not one of
  the named ones.
\<close>

datatype error =
    IndexError
  | AssertionError
  | AttributeError
  | KeyError
  | TypeError
  | ValueError
  | NotImplementedError
  | FileNotFoundError
  | OtherError string

text \<open>
  \<^verbatim>\<open>xs[i]\<close> on a Python list: a negative index counts from the end, an index out of
  range raises \<^verbatim>\<open>IndexError\<close>.
\<close>

definition py_index :: "'a list \<Rightarrow> int \<Rightarrow> error + 'a" where
  "py_index xs i =
     (let n = int (length xs); j = (if i < 0 then i + n else i)
      in if 0 \<le> j \<and> j < n then Inr (xs ! nat j) else Inl IndexError)"

text \<open>
  \<^verbatim>\<open>xs[a:b]\<close> on a Python list never raises: a negative bound counts from the end,
  and both bounds are clamped to \<open>0 .. len(xs)\<close>.
\<close>

definition py_bound :: "nat \<Rightarrow> int \<Rightarrow> nat" where
  "py_bound n i = (if i < 0 then nat (max 0 (i + int n)) else min (nat i) n)"

definition py_slice :: "'a list \<Rightarrow> int \<Rightarrow> int \<Rightarrow> 'a list" where
  "py_slice xs a b =
     (let lo = py_bound (length xs) a; hi = py_bound (length xs) b
      in take (hi - lo) (drop lo xs))"

section \<open>Speaker augmentation: \<^verbatim>\<open>add_speaker_information\<close>\<close>

text \<open>
  The four variables that the loop of \<^verbatim>\<open>add_speaker_information\<close> updates.
  \<open>last_speaker\<close> starts as Python's \<^verbatim>\<open>None\<close>; speakers are strings.
\<close>

record aug_state =
  new_tokens :: "string list"
  token_to_new_token_map :: "nat list"
  new_token_to_token_map :: "nat option list"
  last_speaker :: "string option"

text \<open>
  One iteration of the loop body, for the element \<open>(idx, (token, speaker))\<close> of
  \<^verbatim>\<open>enumerate(zip(tokens, speakers))\<close>. The two constants \<^verbatim>\<open>consts.SPEAKER_START\<close>
  and \<^verbatim>\<open>consts.SPEAKER_END\<close> are parameters.
\<close>

definition speaker_step ::
  "string \<Rightarrow> string \<Rightarrow> aug_state \<Rightarrow> nat \<times> string \<times> string \<Rightarrow> aug_state" where
  "speaker_step SPEAKER_START SPEAKER_END st x =
     (case x of (idx, token, speaker) \<Rightarrow>
        let st1 =
              (if last_speaker st \<noteq> Some speaker
               then st\<lparr>new_tokens := new_tokens st @ [SPEAKER_START, speaker, SPEAKER_END],
                       new_token_to_token_map := new_token_to_token_map st @ [None, None, None],
                       last_speaker := Some speaker\<rparr>
               else st);
            st2 = st1\<lparr>token_to_new_token_map :=
                         token_to_new_token_map st1 @ [length (new_tokens st1)]\<rparr>;
            st3 = st2\<lparr>new_token_to_token_map := new_token_to_token_map st2 @ [Some idx]\<rparr>
        in st3\<lparr>new_tokens := new_tokens st3 @ [token]\<rparr>)"

fun speaker_loop ::
  "string \<Rightarrow> string \<Rightarrow> aug_state \<Rightarrow> (nat \<times> string \<times> string) list \<Rightarrow> aug_state" where
  "speaker_loop SPEAKER_START SPEAKER_END st [] = st"
| "speaker_loop SPEAKER_START SPEAKER_END st (x # xs) =
     speaker_loop SPEAKER_START SPEAKER_END (speaker_step SPEAKER_START SPEAKER_END st x) xs"

definition init_state :: aug_state where
  "init_state =
     \<lparr>new_tokens = [], token_to_new_token_map = [], new_token_to_token_map = [],
      last_speaker = None\<rparr>"

text \<open>
  \<^verbatim>\<open>zip\<close> stops at the shorter of the two lists, \<^verbatim>\<open>enumerate\<close> counts from 0.
\<close>

definition add_speaker_information ::
  "string \<Rightarrow> string \<Rightarrow> string list \<Rightarrow> string list
     \<Rightarrow> string list \<times> nat list \<times> nat option list" where
  "add_speaker_information SPEAKER_START SPEAKER_END tokens speakers =
     (let st = speaker_loop SPEAKER_START SPEAKER_END init_state
                 (enumerate 0 (zip tokens speakers))
      in (new_tokens st, token_to_new_token_map st, new_token_to_token_map st))"

text \<open>
  The vocabulary of the specification: position \<open>i\<close> is a speaker-change boundary when
  it is the first position or its speaker differs from the speaker of the word just
  before it; \<open>boundaries_before speakers k\<close> counts the boundaries among the first
  \<open>k\<close> positions.
\<close>

definition speaker_boundary :: "string list \<Rightarrow> nat \<Rightarrow> bool" where
  "speaker_boundary speakers i = (i = 0 \<or> speakers ! i \<noteq> speakers ! (i - 1))"

definition boundaries_before :: "string list \<Rightarrow> nat \<Rightarrow> nat" where
  "boundaries_before speakers k = length (filter (speaker_boundary speakers) [0..<k])"

text \<open>What the loop has appended for position \<open>i\<close>.\<close>

definition word_block :: "string \<Rightarrow> string \<Rightarrow> string list \<Rightarrow> string list \<Rightarrow> nat \<Rightarrow> string list" where
  "word_block SPEAKER_START SPEAKER_END tokens speakers i =
     (if speaker_boundary speakers i then [SPEAKER_START, speakers ! i, SPEAKER_END] else [])
       @ [tokens ! i]"

definition origin_block :: "string list \<Rightarrow> nat \<Rightarrow> nat option list" where
  "origin_block speakers i =
     (if speaker_boundary speakers i then [None, None, None] else []) @ [Some i]"

section \<open>Encoding one document: \<^verbatim>\<open>_tokenize\<close>\<close>

text \<open>
  The subword tokenizer is an external capability, taken as a parameter: a function
  from the word sequence to an encoding. Of the encoding the code reads
  \<^verbatim>\<open>['input_ids']\<close>, \<^verbatim>\<open>['length']\<close> (a list, of which it takes element 0),
  \<^verbatim>\<open>word_to_tokens(i)\<close> (a token span with fields \<^verbatim>\<open>start\<close> and \<^verbatim>\<open>end\<close>, or
  \<^verbatim>\<open>None\<close> when word \<open>i\<close> produced no subword) and \<^verbatim>\<open>word_ids()\<close>.
\<close>

record encoding =
  enc_input_ids :: "int list"
  enc_length :: "int list"
  enc_word_to_tokens :: "nat \<Rightarrow> (int \<times> int) option"
  enc_word_ids :: "nat option list"

text \<open>The dictionary that \<^verbatim>\<open>_tokenize\<close> returns.\<close>

record encoded_document =
  doc_tokens :: "string list"
  doc_input_ids :: "int list"
  doc_length :: int
  doc_gold_clusters :: "(int \<times> int) list list"
  doc_new_token_map :: "nat option list"
  doc_subtoken_map :: "nat option list"

text \<open>A loop or comprehension whose body may raise stops at the first exception.\<close>

fun traverse :: "('a \<Rightarrow> error + 'b) \<Rightarrow> 'a list \<Rightarrow> error + 'b list" where
  "traverse f [] = Inr []"
| "traverse f (x # xs) =
     (case f x of
        Inl e \<Rightarrow> Inl e
      | Inr y \<Rightarrow> (case traverse f xs of Inl e \<Rightarrow> Inl e | Inr ys \<Rightarrow> Inr (y # ys)))"

text \<open>
  Lines 36 to 38 without the assertions: the augmented word sequence and the two maps.
  When \<^verbatim>\<open>speakers\<close> is empty the words are kept and both maps are the empty list.
\<close>

definition augment ::
  "string \<Rightarrow> string \<Rightarrow> string list \<Rightarrow> string list
     \<Rightarrow> string list \<times> nat list \<times> nat option list" where
  "augment SPEAKER_START SPEAKER_END tokens speakers =
     (if speakers \<noteq> [] then add_speaker_information SPEAKER_START SPEAKER_END tokens speakers
      else (tokens, [], []))"

text \<open>
  The assertion of line 41 for one span: both map lookups come first (left to right),
  then the comparison of the two slices.
\<close>

definition check_span ::
  "string list \<Rightarrow> string list \<Rightarrow> nat list \<Rightarrow> int \<times> int \<Rightarrow> error + unit" where
  "check_span tokens nts fwd sp =
     (case sp of (start, stop) \<Rightarrow>
        (case py_index fwd start of
           Inl e \<Rightarrow> Inl e
         | Inr a \<Rightarrow>
            (case py_index fwd stop of
               Inl e \<Rightarrow> Inl e
             | Inr b \<Rightarrow>
                if py_slice tokens start (stop + 1) = py_slice nts (int a) (int b + 1)
                then Inr () else Inl AssertionError)))"

text \<open>
  Lines 49 and 50 for one span. \<^verbatim>\<open>.start\<close> or \<^verbatim>\<open>.end\<close> of \<^verbatim>\<open>None\<close> raises
  \<^verbatim>\<open>AttributeError\<close>.
\<close>

definition realign_span :: "encoding \<Rightarrow> nat list \<Rightarrow> int \<times> int \<Rightarrow> error + int \<times> int" where
  "realign_span enc fwd sp =
     (case sp of (start, stop) \<Rightarrow>
        (case py_index fwd start of
           Inl e \<Rightarrow> Inl e
         | Inr a \<Rightarrow>
            (case enc_word_to_tokens enc a of
               None \<Rightarrow> Inl AttributeError
             | Some first \<Rightarrow>
                (case py_index fwd stop of
                   Inl e \<Rightarrow> Inl e
                 | Inr b \<Rightarrow>
                    (case enc_word_to_tokens enc b of
                       None \<Rightarrow> Inl AttributeError
                     | Some final \<Rightarrow> Inr (fst first, snd final - 1))))))"

definition tokenize ::
  "string \<Rightarrow> string \<Rightarrow> (string list \<Rightarrow> encoding) \<Rightarrow> string list \<Rightarrow> (int \<times> int) list list
     \<Rightarrow> string list \<Rightarrow> error + encoded_document" where
  "tokenize SPEAKER_START SPEAKER_END tokenizer tokens clusters speakers =
     (case augment SPEAKER_START SPEAKER_END tokens speakers of (nts, fwd, bwd) \<Rightarrow>
        (case (if speakers \<noteq> [] then traverse (traverse (check_span tokens nts fwd)) clusters
               else Inr []) of
           Inl e \<Rightarrow> Inl e
         | Inr _ \<Rightarrow>
            (let encoded_text = tokenizer nts in
             case traverse (traverse (realign_span encoded_text fwd)) clusters of
               Inl e \<Rightarrow> Inl e
             | Inr new_clusters \<Rightarrow>
                (case py_index (enc_length encoded_text) 0 of
                   Inl e \<Rightarrow> Inl e
                 | Inr n \<Rightarrow>
                    Inr \<lparr>doc_tokens = tokens,
                         doc_input_ids = enc_input_ids encoded_text,
                         doc_length = n,
                         doc_gold_clusters = new_clusters,
                         doc_new_token_map = bwd,
                         doc_subtoken_map = enc_word_ids encoded_text\<rparr>))))"

section \<open>Normalising a raw record: \<^verbatim>\<open>prepare_for_encode\<close>\<close>

text \<open>
  A raw record is a Python dictionary from field names to dynamically typed values.
\<close>

datatype pyval = Str string | Lst "pyval list" | Num int | PyNone

type_synonym example = "string \<rightharpoonup> pyval"

text \<open>Python's truth value of a value.\<close>

fun truthy :: "pyval \<Rightarrow> bool" where
  "truthy (Str s) = (s \<noteq> [])"
| "truthy (Lst xs) = (xs \<noteq> [])"
| "truthy (Num n) = (n \<noteq> 0)"
| "truthy PyNone = False"

text \<open>The test \<^verbatim>\<open>key in example and example[key]\<close>.\<close>

definition has_content :: "example \<Rightarrow> string \<Rightarrow> bool" where
  "has_content ex k = (case ex k of None \<Rightarrow> False | Some v \<Rightarrow> truthy v)"

text \<open>Iterating a value: a list yields its elements, a string its characters.\<close>

fun items :: "pyval \<Rightarrow> error + pyval list" where
  "items (Lst xs) = Inr xs"
| "items (Str s) = Inr (map (\<lambda>c. Str [c]) s)"
| "items (Num n) = Inl TypeError"
| "items PyNone = Inl TypeError"

text \<open>
  Modelled from the spec: \<^verbatim>\<open>util.flatten\<close> (\<^verbatim>\<open>utilities/util.py\<close> is not among the
  sources). It flattens a list of sentence-grouped lists into one list, keeping the order.
\<close>

definition flatten :: "pyval \<Rightarrow> error + pyval" where
  "flatten v =
     (case items v of
        Inl e \<Rightarrow> Inl e
      | Inr subs \<Rightarrow>
         (case traverse items subs of Inl e \<Rightarrow> Inl e | Inr xss \<Rightarrow> Inr (Lst (concat xss))))"

text \<open>\<^verbatim>\<open>example[key]\<close> raises \<^verbatim>\<open>KeyError\<close> when the key is absent.\<close>

definition get_item :: "example \<Rightarrow> string \<Rightarrow> error + pyval" where
  "get_item ex k = (case ex k of None \<Rightarrow> Inl KeyError | Some v \<Rightarrow> Inr v)"


section \<open>The batch cache: \<^verbatim>\<open>create_batches\<close>\<close>

text \<open>
  Modelled from the spec: the collator classes of \<^verbatim>\<open>utilities/collate.py\<close> are not
  among the sources. There are exactly two supported variants, which the code tells
  apart with \<^verbatim>\<open>isinstance\<close>; \<open>OtherCollator\<close> is any other object.
\<close>

datatype collator_kind = LeftOversCollator | PadCollator | OtherCollator

text \<open>
  A batch is a dictionary from field names to values, read in insertion order by
  \<^verbatim>\<open>batch.items()\<close>. Of the sampler the code reads its collator, its dataset (for a log
  message) and the batches that iterating it yields.
\<close>

type_synonym 'v batch = "(string \<times> 'v) list"

record ('doc, 'v) sampler =
  collator :: collator_kind
  dataset :: "'doc list"
  batches_of :: "'v batch list"

text \<open>
  Modelled from the spec: the persistence capability (\<^verbatim>\<open>datasets.load_from_disk\<close> and
  \<^verbatim>\<open>Dataset.save_to_disk\<close>) is external. \<open>disk\<close> gives, for every path, what loading
  it yields: a batch collection or the exception raised, \<^verbatim>\<open>FileNotFoundError\<close> being
  "not found". \<open>save_failure\<close> gives the exception that saving to a path raises, if any.
  \<open>events\<close> records the operations performed, in order.
\<close>

datatype io_event = LoadFromDisk string | NextBatch | SaveToDisk string

record 'ds world =
  disk :: "string \<Rightarrow> error + 'ds"
  save_failure :: "string \<Rightarrow> error option"
  events :: "io_event list"

definition load_from_disk :: "string \<Rightarrow> 'ds world \<Rightarrow> (error + 'ds) \<times> 'ds world" where
  "load_from_disk path w = (disk w path, w\<lparr>events := events w @ [LoadFromDisk path]\<rparr>)"

definition save_to_disk :: "'ds \<Rightarrow> string \<Rightarrow> 'ds world \<Rightarrow> (error + unit) \<times> 'ds world" where
  "save_to_disk ds path w =
     (case save_failure w path of
        Some e \<Rightarrow> (Inl e, w\<lparr>events := events w @ [SaveToDisk path]\<rparr>)
      | None \<Rightarrow>
         (Inr (), w\<lparr>disk := (disk w)(path := Inr ds),
                    events := events w @ [SaveToDisk path]\<rparr>))"

text \<open>\<^verbatim>\<open>os.path.join\<close> of two components, on a POSIX system.\<close>

definition path_join :: "string \<Rightarrow> string \<Rightarrow> string" where
  "path_join a b =
     (if b \<noteq> [] \<and> hd b = CHR ''/'' then b
      else if a = [] \<or> last a = CHR ''/'' then a @ b
      else a @ ''/'' @ b)"

text \<open>
  Lines 131 to 137: the key before the second fingerprint, or the exception for an
  unsupported collator. \<^verbatim>\<open>Hasher.hash\<close> is external and taken as a parameter, once
  for the document source (\<open>hash_files\<close>) and once for strings (\<open>hash_key\<close>).
\<close>

definition collator_key :: "('f \<Rightarrow> string) \<Rightarrow> collator_kind \<Rightarrow> 'f \<Rightarrow> error + string" where
  "collator_key hash_files c dataset_files =
     (let key = hash_files dataset_files in
      case c of
        LeftOversCollator \<Rightarrow> Inr (key @ ''_segment_collator'')
      | PadCollator \<Rightarrow> Inr (key @ ''_longformer_collator'')
      | OtherCollator \<Rightarrow> Inl NotImplementedError)"

text \<open>Lines 139 and 140.\<close>

definition cache_key ::
  "('f \<Rightarrow> string) \<Rightarrow> (string \<Rightarrow> string) \<Rightarrow> collator_kind \<Rightarrow> 'f \<Rightarrow> error + string" where
  "cache_key hash_files hash_key c dataset_files =
     (case collator_key hash_files c dataset_files of
        Inl e \<Rightarrow> Inl e
      | Inr key \<Rightarrow> Inr (hash_key key))"

definition dataset_path ::
  "('f \<Rightarrow> string) \<Rightarrow> (string \<Rightarrow> string) \<Rightarrow> string \<Rightarrow> collator_kind \<Rightarrow> 'f \<Rightarrow> error + string" where
  "dataset_path hash_files hash_key cache_dir c dataset_files =
     (case cache_key hash_files hash_key c dataset_files of
        Inl e \<Rightarrow> Inl e
      | Inr k \<Rightarrow> Inr (path_join cache_dir k))"

text \<open>
  \<^verbatim>\<open>batches_dict[k].append(v)\<close> on a \<^verbatim>\<open>defaultdict\<close> of lists: a new key is added
  after the existing ones.
\<close>

fun dict_append :: "(string \<times> 'v list) list \<Rightarrow> string \<Rightarrow> 'v \<Rightarrow> (string \<times> 'v list) list" where
  "dict_append [] k v = [(k, [v])]"
| "dict_append ((k', vs) # d) k v =
     (if k' = k then (k', vs @ [v]) # d else (k', vs) # dict_append d k v)"

fun add_batch :: "(string \<times> 'v list) list \<Rightarrow> 'v batch \<Rightarrow> (string \<times> 'v list) list" where
  "add_batch d [] = d"
| "add_batch d ((k, v) # kvs) = add_batch (dict_append d k v) kvs"

fun collect_batches :: "(string \<times> 'v list) list \<Rightarrow> 'v batch list \<Rightarrow> (string \<times> 'v list) list" where
  "collect_batches d [] = d"
| "collect_batches d (b # bs) = collect_batches (add_batch d b) bs"

text \<open>
  \<^verbatim>\<open>create_batches\<close>. \<^verbatim>\<open>Dataset.from_dict\<close> is external and taken as a parameter; it
  may raise. The log messages are left out. The result comes with the world after the
  call, also when the call raises.
\<close>

definition create_batches ::
  "('f \<Rightarrow> string) \<Rightarrow> (string \<Rightarrow> string) \<Rightarrow> ((string \<times> 'v list) list \<Rightarrow> error + 'ds)
     \<Rightarrow> ('doc, 'v) sampler \<Rightarrow> 'f \<Rightarrow> string \<Rightarrow> 'ds world \<Rightarrow> (error + 'ds) \<times> 'ds world" where
  "create_batches hash_files hash_key from_dict sampler dataset_files cache_dir w =
     (case dataset_path hash_files hash_key cache_dir (collator sampler) dataset_files of
        Inl e \<Rightarrow> (Inl e, w)
      | Inr path \<Rightarrow>
         (case load_from_disk path w of
            (Inr batches, w1) \<Rightarrow> (Inr batches, w1)
          | (Inl e, w1) \<Rightarrow>
             if e = FileNotFoundError then
               (let batches_dict = collect_batches [] (batches_of sampler);
                    w2 = w1\<lparr>events :=
                              events w1 @ replicate (length (batches_of sampler)) NextBatch\<rparr>
                in case from_dict batches_dict of
                     Inl e' \<Rightarrow> (Inl e', w2)
                   | Inr batches \<Rightarrow>
                      (case save_to_disk batches path w2 of
                         (Inl e', w3) \<Rightarrow> (Inl e', w3)
                       | (Inr _, w3) \<Rightarrow> (Inr batches, w3)))
             else (Inl e, w1)))"

text \<open>
  The values of field \<open>k\<close> over a sequence of batches, in batch order.
\<close>

definition field_values :: "string \<Rightarrow> 'v batch list \<Rightarrow> 'v list" where
  "field_values k bs = concat (map (\<lambda>b. map snd (filter (\<lambda>kv. fst kv = k) b)) bs)"

text \<open>
  Field \<open>k\<close> of a collected dictionary holds the values \<open>xs\<close>: the key is absent when
  there are none.
\<close>

definition holds_values :: "(string \<times> 'v list) list \<Rightarrow> string \<Rightarrow> 'v list \<Rightarrow> bool" where
  "holds_values d k xs = (map_of d k = (if xs = [] then None else Some xs))"

section \<open>The loop in closed form\<close>

lemma speaker_loop_append:
  "speaker_loop ss se st (xs @ ys) = speaker_loop ss se (speaker_loop ss se st xs) ys"
  by (induction xs arbitrary: st) simp_all

lemma speaker_loop_snoc:
  "speaker_loop ss se st (xs @ [x]) = speaker_step ss se (speaker_loop ss se st xs) x"
  by (simp add: speaker_loop_append)

lemma boundaries_before_0 [simp]: "boundaries_before speakers 0 = 0"
  by (simp add: boundaries_before_def)

lemma boundaries_before_Suc:
  "boundaries_before speakers (Suc k) =
     boundaries_before speakers k + (if speaker_boundary speakers k then 1 else 0)"
  by (simp add: boundaries_before_def)

lemma boundaries_before_mono:
  "j \<le> k \<Longrightarrow> boundaries_before speakers j \<le> boundaries_before speakers k"
  by (induction k) (auto simp: boundaries_before_Suc le_Suc_eq)

lemma prefix_state:
  fixes ss se :: string
  assumes "k \<le> length tokens" "k \<le> length speakers"
  defines "st \<equiv> speaker_loop ss se init_state (take k (enumerate 0 (zip tokens speakers)))"
  shows "new_tokens st = concat (map (word_block ss se tokens speakers) [0..<k])
       \<and> token_to_new_token_map st = map (\<lambda>i. i + 3 * boundaries_before speakers (Suc i)) [0..<k]
       \<and> new_token_to_token_map st = concat (map (origin_block speakers) [0..<k])
       \<and> last_speaker st = (if k = 0 then None else Some (speakers ! (k - 1)))
       \<and> length (new_tokens st) = k + 3 * boundaries_before speakers k"
  using assms(1,2) unfolding st_def
proof (induction k)
  case 0
  then show ?case by (simp add: init_state_def)
next
  case (Suc k)
  let ?zs = "enumerate 0 (zip tokens speakers)"
  have k: "k < length ?zs" using Suc.prems by simp
  have nth: "?zs ! k = (k, tokens ! k, speakers ! k)"
    using Suc.prems by (simp add: nth_enumerate_eq)
  have step: "speaker_loop ss se init_state (take (Suc k) ?zs)
      = speaker_step ss se (speaker_loop ss se init_state (take k ?zs)) (k, tokens ! k, speakers ! k)"
    using k nth by (simp add: take_Suc_conv_app_nth speaker_loop_snoc)
  note IH0 = Suc.IH[OF Suc_leD[OF Suc.prems(1)] Suc_leD[OF Suc.prems(2)]]
  note IH = IH0[THEN conjunct1] IH0[THEN conjunct2, THEN conjunct1]
    IH0[THEN conjunct2, THEN conjunct2, THEN conjunct1]
    IH0[THEN conjunct2, THEN conjunct2, THEN conjunct2, THEN conjunct1]
    IH0[THEN conjunct2, THEN conjunct2, THEN conjunct2, THEN conjunct2]
  have b: "speaker_boundary speakers k \<longleftrightarrow> last_speaker (speaker_loop ss se init_state (take k ?zs)) \<noteq> Some (speakers ! k)"
    unfolding IH(4) by (auto simp: speaker_boundary_def)
  have len: "length (concat (map (word_block ss se tokens speakers) [0..<k])) =
      k + 3 * boundaries_before speakers k"
    using IH(1) IH(5) by simp
  show ?case
  proof (cases "speaker_boundary speakers k")
    case True
    then have ls: "last_speaker (speaker_loop ss se init_state (take k ?zs)) \<noteq> Some (speakers ! k)"
      using b by simp
    show ?thesis unfolding step using True
      by (simp add: speaker_step_def Let_def ls IH(1,2,3) len word_block_def[of _ _ _ _ k]
          origin_block_def[of _ k]
          boundaries_before_Suc)
  next
    case False
    then have ls: "last_speaker (speaker_loop ss se init_state (take k ?zs)) = Some (speakers ! k)"
      using b by simp
    show ?thesis unfolding step using False
      by (simp add: speaker_step_def Let_def ls IH(1,2,3) len word_block_def[of _ _ _ _ k]
          origin_block_def[of _ k]
          boundaries_before_Suc)
  qed
qed

lemma add_speaker_information_closed:
  fixes ss se :: string and tokens speakers :: "string list"
  defines "n \<equiv> min (length tokens) (length speakers)"
  shows "add_speaker_information ss se tokens speakers =
     (concat (map (word_block ss se tokens speakers) [0..<n]),
      map (\<lambda>i. i + 3 * boundaries_before speakers (Suc i)) [0..<n],
      concat (map (origin_block speakers) [0..<n]))"
proof -
  have "take n (enumerate 0 (zip tokens speakers)) = enumerate 0 (zip tokens speakers)"
    by (simp add: n_def)
  with prefix_state[of n tokens speakers ss se] show ?thesis
    by (simp add: add_speaker_information_def Let_def n_def)
qed

lemma length_word_blocks:
  "length (concat (map (word_block ss se tokens speakers) [0..<k])) =
     k + 3 * boundaries_before speakers k"
  by (induction k) (simp_all add: word_block_def boundaries_before_Suc)

lemma length_origin_blocks:
  "length (concat (map (origin_block speakers) [0..<k])) =
     k + 3 * boundaries_before speakers k"
  by (induction k) (simp_all add: origin_block_def boundaries_before_Suc)

lemma upt_split3: "i < n \<Longrightarrow> [0..<n] = [0..<i] @ i # [Suc i..<n]"
  by (metis upt_conv_Cons upt_add_eq_append le_add_diff_inverse less_imp_le_nat zero_le)

lemma blocks_split:
  "i < n \<Longrightarrow> concat (map f [0..<n]) =
     concat (map f [0..<i]) @ f i @ concat (map f [Suc i..<n])"
  by (simp add: upt_split3[of i n])

lemma origin_at_forward:
  assumes "i < n"
  shows "concat (map (origin_block speakers) [0..<n]) ! (i + 3 * boundaries_before speakers (Suc i)) = Some i"
proof -
  have "concat (map (origin_block speakers) [0..<n]) ! (i + 3 * boundaries_before speakers (Suc i))
      = (origin_block speakers i @ concat (map (origin_block speakers) [Suc i..<n])) !
          (3 * (if speaker_boundary speakers i then 1 else 0))"
    by (simp add: blocks_split[OF assms] nth_append length_origin_blocks boundaries_before_Suc)
  also have "\<dots> = Some i"
    by (simp add: origin_block_def)
  finally show ?thesis .
qed

lemma word_at_forward:
  assumes "i < n"
  shows "concat (map (word_block ss se tokens speakers) [0..<n]) ! (i + 3 * boundaries_before speakers (Suc i)) = tokens ! i"
proof -
  have "concat (map (word_block ss se tokens speakers) [0..<n]) ! (i + 3 * boundaries_before speakers (Suc i))
      = (word_block ss se tokens speakers i @ concat (map (word_block ss se tokens speakers) [Suc i..<n])) !
          (3 * (if speaker_boundary speakers i then 1 else 0))"
    by (simp add: blocks_split[OF assms] nth_append length_word_blocks boundaries_before_Suc)
  also have "\<dots> = tokens ! i"
    by (simp add: word_block_def)
  finally show ?thesis .
qed

lemma forward_lt_length:
  assumes "i < n"
  shows "i + 3 * boundaries_before speakers (Suc i) < n + 3 * boundaries_before speakers n"
proof -
  have "boundaries_before speakers (Suc i) \<le> boundaries_before speakers n"
    using assms by (intro boundaries_before_mono) simp
  with assms show ?thesis by simp
qed

lemma forward_strict_mono:
  assumes "i < j"
  shows "i + 3 * boundaries_before speakers (Suc i) < j + 3 * boundaries_before speakers (Suc j)"
proof -
  have "boundaries_before speakers (Suc i) \<le> boundaries_before speakers (Suc j)"
    using assms by (intro boundaries_before_mono) simp
  with assms show ?thesis by simp
qed

lemma forward_sorted:
  "sorted_wrt (<) (map (\<lambda>i. i + 3 * boundaries_before speakers (Suc i)) [0..<n])"
  unfolding sorted_wrt_map
  by (rule sorted_wrt_mono_rel[where P = "(<)"]) (simp_all add: forward_strict_mono)

lemma zip_blocks:
  "(\<And>i. length (f i) = length (g i)) \<Longrightarrow>
     zip (concat (map f xs)) (concat (map g xs)) = concat (map (\<lambda>i. zip (f i) (g i)) xs)"
  by (induction xs) simp_all

lemma length_blocks_eq:
  "length (word_block ss se tokens speakers i) = length (origin_block speakers i)"
  by (simp add: word_block_def origin_block_def)

lemma originals_of_blocks:
  "map fst (filter (\<lambda>p. snd p \<noteq> None)
      (zip (concat (map (word_block ss se tokens speakers) [0..<n]))
           (concat (map (origin_block speakers) [0..<n]))))
   = map (\<lambda>i. tokens ! i) [0..<n]"
proof -
  have blk: "map fst (filter (\<lambda>p. snd p \<noteq> None)
      (zip (word_block ss se tokens speakers i) (origin_block speakers i))) = [tokens ! i]" for i
    by (simp add: word_block_def origin_block_def)
  have "map fst (filter (\<lambda>p. snd p \<noteq> None) (concat (map (\<lambda>i. zip (word_block ss se tokens speakers i) (origin_block speakers i)) xs)))
      = map (\<lambda>i. tokens ! i) xs" for xs
    by (induction xs) (simp_all add: blk del: not_None_eq)
  then show ?thesis
    by (simp add: zip_blocks[OF length_blocks_eq] del: not_None_eq)
qed

lemma set_origin_blocks:
  "Some i \<in> set (concat (map (origin_block speakers) [0..<n])) \<longleftrightarrow> i < n"
  by (auto simp: origin_block_def)

section \<open>Claims about speaker augmentation\<close>

text \<open>
  Claim C3. For a word sequence and a speaker sequence of the same length, the augmented
  word sequence has \<open>len(words) + 3 * B\<close> elements, where \<open>B\<close> is the number of
  positions whose speaker differs from the speaker of the word just before; position 0
  always counts, and a speaker who returns after an interruption counts again, since
  \<open>speaker_boundary\<close> compares a position with its predecessor only.
\<close>

theorem augmented_length:
  assumes "length speakers = length tokens"
  shows "length (fst (add_speaker_information ss se tokens speakers)) =
           length tokens + 3 * boundaries_before speakers (length tokens)"
  using assms by (simp add: add_speaker_information_closed length_word_blocks)

theorem augmented_length_witness:
  "length (fst (add_speaker_information ''<s>'' ''</s>'' [''Hi'', ''Bob'', ''Yo''] [''A'', ''B'', ''A''])) = 12
   \<and> boundaries_before [''A'', ''B'', ''A''] 3 = 3"
  using augmented_length[of "[''A'', ''B'', ''A'']" "[''Hi'', ''Bob'', ''Yo'']" "''<s>''" "''</s>''"]
  by (simp add: boundaries_before_def speaker_boundary_def upt_rec)

text \<open>
  Claim C4. For a non-empty speaker sequence of the same length as the word sequence,
  the forward map has one entry per word, every entry is a position of the backward map,
  the backward map sends it back to the word's position, and the forward map is strictly
  increasing.
\<close>

theorem forward_backward_inverse:
  assumes "speakers \<noteq> []" and "length speakers = length tokens"
  shows "case add_speaker_information ss se tokens speakers of (nts, fwd, bwd) \<Rightarrow>
           length fwd = length tokens \<and> length bwd = length nts \<and>
           (\<forall>i < length tokens. fwd ! i < length bwd \<and> bwd ! (fwd ! i) = Some i) \<and>
           sorted_wrt (<) fwd"
  using assms
  by (simp add: add_speaker_information_closed length_word_blocks length_origin_blocks
      origin_at_forward forward_lt_length forward_sorted)

theorem forward_backward_inverse_witness:
  "[''A'', ''B''] \<noteq> ([] :: string list) \<and> length [''A'', ''B''] = length [''Hi'', ''Bob''] \<and>
   (case add_speaker_information ''<s>'' ''</s>'' [''Hi'', ''Bob''] [''A'', ''B''] of
      (nts, fwd, bwd) \<Rightarrow>
        fwd = [3, 7] \<and> length bwd = 8 \<and> bwd ! (fwd ! 0) = Some 0 \<and> bwd ! (fwd ! 1) = Some 1 \<and>
        sorted_wrt (<) fwd)"
  using forward_backward_inverse[of "[''A'', ''B'']" "[''Hi'', ''Bob'']" "''<s>''" "''</s>''"]
  by (simp add: add_speaker_information_def speaker_step_def init_state_def Let_def)

text \<open>
  Claim C10. When the speaker sequence is non-empty and shorter than the word sequence,
  augmentation raises nothing and works on the first \<open>len(speakers)\<close> words only: the
  result is that of the truncated document, both maps cover exactly the positions below
  \<open>len(speakers)\<close>, and the words of the augmented sequence that come from the document
  are the first \<open>len(speakers)\<close> words.
\<close>

theorem short_speakers_truncate:
  assumes "speakers \<noteq> []" and "length speakers < length tokens"
  shows "add_speaker_information ss se tokens speakers =
           add_speaker_information ss se (take (length speakers) tokens) speakers \<and>
         (case add_speaker_information ss se tokens speakers of (nts, fwd, bwd) \<Rightarrow>
            length fwd = length speakers \<and> length bwd = length nts \<and>
            (\<forall>i. Some i \<in> set bwd \<longleftrightarrow> i < length speakers) \<and>
            map fst (filter (\<lambda>p. snd p \<noteq> None) (zip nts bwd)) = take (length speakers) tokens)"
proof -
  have wb: "map (word_block ss se (take (length speakers) tokens) speakers) [0..<length speakers]
      = map (word_block ss se tokens speakers) [0..<length speakers]"
    by (simp add: word_block_def)
  have tk: "map (\<lambda>i. tokens ! i) [0..<length speakers] = take (length speakers) tokens"
    using assms(2) by (intro nth_equalityI) simp_all
  show ?thesis using assms
    by (simp add: add_speaker_information_closed wb length_word_blocks length_origin_blocks min_def
        set_origin_blocks originals_of_blocks tk del: set_concat not_None_eq)
qed

theorem short_speakers_truncate_witness:
  "[''A''] \<noteq> ([] :: string list) \<and> length [''A''] < length [''Hi'', ''Bob''] \<and>
   add_speaker_information ''<s>'' ''</s>'' [''Hi'', ''Bob''] [''A''] =
     add_speaker_information ''<s>'' ''</s>'' [''Hi''] [''A''] \<and>
   add_speaker_information ''<s>'' ''</s>'' [''Hi'', ''Bob''] [''A''] =
     ([''<s>'', ''A'', ''</s>'', ''Hi''], [3], [None, None, None, Some 0])"
  using short_speakers_truncate[of "[''A'']" "[''Hi'', ''Bob'']" "''<s>''" "''</s>''"]
  by (simp add: add_speaker_information_def speaker_step_def init_state_def Let_def)

section \<open>The assertion of line 41\<close>

lemma drop_at_forward:
  assumes "i < n"
  shows "drop (i + 3 * boundaries_before speakers (Suc i))
           (concat (map (word_block ss se tokens speakers) [0..<n]))
         = tokens ! i # concat (map (word_block ss se tokens speakers) [Suc i..<n])"
  by (simp add: blocks_split[OF assms] length_word_blocks boundaries_before_Suc word_block_def)

lemma plain_blocks:
  assumes "\<forall>i. s < i \<and> i \<le> e \<longrightarrow> \<not> speaker_boundary speakers i"
  shows "concat (map (word_block ss se tokens speakers) [Suc s..<Suc e]) =
         map (\<lambda>i. tokens ! i) [Suc s..<Suc e]"
proof -
  have eq: "map (word_block ss se tokens speakers) [Suc s..<Suc e] =
        map (\<lambda>i. [tokens ! i]) [Suc s..<Suc e]"
    using assms by (intro map_cong) (auto simp: word_block_def simp del: upt_Suc)
  show ?thesis unfolding eq by (rule concat_map_singleton)
qed

lemma boundaries_equal:
  assumes "\<forall>i. s < i \<and> i \<le> e \<longrightarrow> \<not> speaker_boundary speakers i" and "s \<le> e"
  shows "boundaries_before speakers (Suc e) = boundaries_before speakers (Suc s)"
  using assms(2,1)
proof (induction e rule: dec_induct)
  case base
  then show ?case by simp
next
  case (step k)
  then show ?case by (simp add: boundaries_before_Suc[of speakers "Suc k"])
qed

lemma boundaries_grow:
  assumes "s < j" "j \<le> e" "speaker_boundary speakers j"
  shows "boundaries_before speakers (Suc s) < boundaries_before speakers (Suc e)"
proof -
  have "boundaries_before speakers (Suc s) \<le> boundaries_before speakers j"
    using assms(1) by (intro boundaries_before_mono) simp
  moreover have "boundaries_before speakers (Suc j) = boundaries_before speakers j + 1"
    using assms(3) by (simp add: boundaries_before_Suc)
  moreover have "boundaries_before speakers (Suc j) \<le> boundaries_before speakers (Suc e)"
    using assms(2) by (intro boundaries_before_mono) simp
  ultimately show ?thesis by simp
qed

lemma same_speaker_iff:
  "(\<forall>i. s < i \<and> i \<le> e \<longrightarrow> speakers ! i = speakers ! s) \<longleftrightarrow>
   (\<forall>i. s < i \<and> i \<le> e \<longrightarrow> \<not> speaker_boundary speakers i)"
proof
  assume same: "\<forall>i. s < i \<and> i \<le> e \<longrightarrow> speakers ! i = speakers ! s"
  show "\<forall>i. s < i \<and> i \<le> e \<longrightarrow> \<not> speaker_boundary speakers i"
  proof (intro allI impI)
    fix i assume i: "s < i \<and> i \<le> e"
    then have "speakers ! i = speakers ! s" using same by blast
    moreover have "speakers ! (i - 1) = speakers ! s"
    proof (cases "i - 1 = s")
      case True then show ?thesis by simp
    next
      case False
      with i have "s < i - 1 \<and> i - 1 \<le> e" by auto
      then show ?thesis using same by blast
    qed
    ultimately show "\<not> speaker_boundary speakers i"
      using i by (simp add: speaker_boundary_def)
  qed
next
  assume nb: "\<forall>i. s < i \<and> i \<le> e \<longrightarrow> \<not> speaker_boundary speakers i"
  have "s < i \<Longrightarrow> i \<le> e \<Longrightarrow> speakers ! i = speakers ! s" for i
  proof (induction i)
    case 0
    then show ?case by simp
  next
    case (Suc k)
    then have "\<not> speaker_boundary speakers (Suc k)" using nb by blast
    then have eq: "speakers ! Suc k = speakers ! k" by (simp add: speaker_boundary_def)
    show ?case
    proof (cases "k = s")
      case True with eq show ?thesis by simp
    next
      case False
      with Suc.prems have "s < k" "k \<le> e" by auto
      with Suc.IH eq show ?thesis by simp
    qed
  qed
  then show "\<forall>i. s < i \<and> i \<le> e \<longrightarrow> speakers ! i = speakers ! s" by blast
qed

lemma py_index_nat: "i < length xs \<Longrightarrow> py_index xs (int i) = Inr (xs ! i)"
  by (simp add: py_index_def Let_def)

lemma py_slice_nat:
  "a \<le> length xs \<Longrightarrow> b \<le> length xs \<Longrightarrow> py_slice xs (int a) (int b) = take (b - a) (drop a xs)"
  by (simp add: py_slice_def py_bound_def Let_def)

lemma slice_as_map:
  assumes "s \<le> e" "e < length xs"
  shows "take (Suc e - s) (drop s xs) = map (\<lambda>i. xs ! i) [s..<Suc e]"
  using assms by (intro nth_equalityI) (simp_all add: nth_map_upt del: upt_Suc)

lemma check_span_result:
  fixes tokens speakers :: "string list"
  assumes len: "length speakers = length tokens" and se: "s \<le> e" and e: "e < length tokens"
  shows "case add_speaker_information ss se tokens speakers of (nts, fwd, bwd) \<Rightarrow>
           check_span tokens nts fwd (int s, int e) =
             (if (\<forall>i. s < i \<and> i \<le> e \<longrightarrow> speakers ! i = speakers ! s) then Inr ()
              else Inl AssertionError)"
proof -
  define n where "n = length tokens"
  define f where "f = (\<lambda>i. i + 3 * boundaries_before speakers (Suc i))"
  define nts where "nts = concat (map (word_block ss se tokens speakers) [0..<n])"
  define fwd where "fwd = map f [0..<n]"
  have s: "s < n" using se e by (simp add: n_def)
  have e': "e < n" using e by (simp add: n_def)
  have asi: "add_speaker_information ss se tokens speakers =
      (nts, fwd, concat (map (origin_block speakers) [0..<n]))"
    by (simp add: add_speaker_information_closed len n_def nts_def fwd_def f_def)
  have ia: "py_index fwd (int s) = Inr (f s)"
    using s by (simp add: py_index_nat fwd_def)
  have ib: "py_index fwd (int e) = Inr (f e)"
    using e' by (simp add: py_index_nat fwd_def)
  have lnts: "length nts = n + 3 * boundaries_before speakers n"
    by (simp add: nts_def length_word_blocks)
  have fe: "Suc (f e) \<le> length nts"
    using forward_lt_length[OF e', of speakers] by (simp add: f_def lnts)
  have fse: "f s \<le> f e"
    using se forward_strict_mono[of s e speakers] by (cases "s = e") (auto simp: f_def)
  have ts: "py_slice tokens (int s) (int e + 1) = take (Suc e - s) (drop s tokens)"
    using py_slice_nat[of s tokens "Suc e"] s e by (simp add: n_def add.commute)
  have ns: "py_slice nts (int (f s)) (int (f e) + 1) = take (Suc (f e) - f s) (drop (f s) nts)"
    using py_slice_nat[of "f s" nts "Suc (f e)"] fe fse by (simp add: add.commute)
  have chk: "check_span tokens nts fwd (int s, int e) =
      (if take (Suc e - s) (drop s tokens) = take (Suc (f e) - f s) (drop (f s) nts)
       then Inr () else Inl AssertionError)"
    by (simp add: check_span_def ia ib ts ns)
  show ?thesis
  proof (cases "\<forall>i. s < i \<and> i \<le> e \<longrightarrow> speakers ! i = speakers ! s")
    case True
    then have nb: "\<forall>i. s < i \<and> i \<le> e \<longrightarrow> \<not> speaker_boundary speakers i"
      unfolding same_speaker_iff .
    have beq: "boundaries_before speakers (Suc e) = boundaries_before speakers (Suc s)"
      using boundaries_equal[OF nb se] .
    have cnt: "Suc (f e) - f s = Suc e - s"
      using se by (simp add: f_def beq)
    have split: "[Suc s..<n] = [Suc s..<Suc e] @ [Suc e..<n]"
      using se e' upt_add_eq_append[of "Suc s" "Suc e" "n - Suc e"] by simp
    have "drop (f s) nts = tokens ! s # concat (map (word_block ss se tokens speakers) [Suc s..<n])"
      unfolding f_def nts_def by (rule drop_at_forward[OF s])
    also have "\<dots> = (tokens ! s # map (\<lambda>i. tokens ! i) [Suc s..<Suc e])
        @ concat (map (word_block ss se tokens speakers) [Suc e..<n])"
      by (simp add: split plain_blocks[OF nb] del: upt_Suc)
    also have "tokens ! s # map (\<lambda>i. tokens ! i) [Suc s..<Suc e] = map (\<lambda>i. tokens ! i) [s..<Suc e]"
      using se by (simp add: upt_conv_Cons[of s "Suc e"] del: upt_Suc)
    finally have "take (Suc e - s) (drop (f s) nts) = map (\<lambda>i. tokens ! i) [s..<Suc e]"
      by (simp del: upt_Suc)
    moreover have "take (Suc e - s) (drop s tokens) = map (\<lambda>i. tokens ! i) [s..<Suc e]"
      by (rule slice_as_map[OF se e])
    ultimately show ?thesis
      using True by (simp add: asi chk cnt)
  next
    case False
    then have "\<not> (\<forall>i. s < i \<and> i \<le> e \<longrightarrow> \<not> speaker_boundary speakers i)"
      unfolding same_speaker_iff .
    then obtain j where j: "s < j" "j \<le> e" "speaker_boundary speakers j" by blast
    have lt: "boundaries_before speakers (Suc s) < boundaries_before speakers (Suc e)"
      by (rule boundaries_grow[OF j])
    have l1: "length (take (Suc e - s) (drop s tokens)) = Suc e - s"
      using se e by simp
    have l2: "length (take (Suc (f e) - f s) (drop (f s) nts)) = Suc (f e) - f s"
      using fe fse by simp
    have "Suc e - s < Suc (f e) - f s"
      using se lt by (simp add: f_def)
    with l1 l2 have "take (Suc e - s) (drop s tokens) \<noteq> take (Suc (f e) - f s) (drop (f s) nts)"
      by (metis less_irrefl)
    then show ?thesis
      using False by (simp add: asi chk)
  qed
qed

text \<open>
  Claim C2. On a valid input (a non-empty speaker sequence of the same length as the word
  sequence, a span \<open>[s, e]\<close> with \<open>s \<le> e < len(words)\<close>) the two map lookups of the
  assertion raise nothing, but the assertion does not always hold: it holds exactly when
  every word of the span has the speaker of the span's first word. For a span that
  crosses a speaker change the code raises \<^verbatim>\<open>AssertionError\<close>, since the slice of the
  augmented sequence then also holds the inserted speaker tokens.
\<close>

theorem assertion_holds_within_one_speaker:
  fixes tokens speakers :: "string list"
  assumes "speakers \<noteq> []" and "length speakers = length tokens"
    and "s \<le> e" and "e < length tokens"
  shows "case add_speaker_information ss se tokens speakers of (nts, fwd, bwd) \<Rightarrow>
           check_span tokens nts fwd (int s, int e) =
             (if (\<forall>i. s < i \<and> i \<le> e \<longrightarrow> speakers ! i = speakers ! s) then Inr ()
              else Inl AssertionError)"
  using assms(2-4) by (rule check_span_result)

theorem assertion_holds_within_one_speaker_witness:
  "[''A'', ''A'', ''B''] \<noteq> ([] :: string list) \<and>
   length [''A'', ''A'', ''B''] = length [''Hi'', ''Bob'', ''Yo''] \<and>
   (0 :: nat) \<le> 1 \<and> (1 :: nat) < length [''Hi'', ''Bob'', ''Yo''] \<and>
   (case add_speaker_information ''<s>'' ''</s>'' [''Hi'', ''Bob'', ''Yo''] [''A'', ''A'', ''B''] of
      (nts, fwd, bwd) \<Rightarrow>
        check_span [''Hi'', ''Bob'', ''Yo''] nts fwd (0, 1) = Inr () \<and>
        check_span [''Hi'', ''Bob'', ''Yo''] nts fwd (1, 2) = Inl AssertionError)"
  using assertion_holds_within_one_speaker[of "[''A'', ''A'', ''B'']" "[''Hi'', ''Bob'', ''Yo'']" 0 1 "''<s>''" "''</s>''"]
    assertion_holds_within_one_speaker[of "[''A'', ''A'', ''B'']" "[''Hi'', ''Bob'', ''Yo'']" 1 2 "''<s>''" "''</s>''"]
  by (simp add: add_speaker_information_def speaker_step_def init_state_def Let_def
      check_span_def py_index_def py_slice_def py_bound_def)

text \<open>
  The failing input: words \<open>Hi Bob\<close> with speakers \<open>A B\<close> and the span
  \<open>[0, 1]\<close> meet the preconditions, and \<^verbatim>\<open>_tokenize\<close> raises
  \<^verbatim>\<open>AssertionError\<close> for every tokenizer.
\<close>

theorem assertion_fails_across_speakers:
  "[''A'', ''B''] \<noteq> ([] :: string list) \<and> length [''A'', ''B''] = length [''Hi'', ''Bob''] \<and>
   (0 :: int) \<le> 0 \<and> (0 :: int) \<le> 1 \<and> (1 :: int) < int (length [''Hi'', ''Bob'']) \<and>
   (\<forall>tokenizer. tokenize ''<s>'' ''</s>'' tokenizer [''Hi'', ''Bob''] [[(0, 1)]] [''A'', ''B'']
      = Inl AssertionError)"
  by (simp add: tokenize_def augment_def add_speaker_information_def speaker_step_def
      init_state_def Let_def check_span_def py_index_def py_slice_def py_bound_def)

lemma traverse_first_error:
  assumes "concat xss \<noteq> []" and "\<And>x. f x = Inl err"
  shows "traverse (traverse f) xss = Inl err"
  using assms(1)
proof (induction xss)
  case Nil
  then show ?case by simp
next
  case (Cons xs xss)
  show ?case
  proof (cases xs)
    case Nil
    with Cons show ?thesis by simp
  next
    case (Cons y ys)
    then show ?thesis by (simp add: assms(2))
  qed
qed

lemma traverse_no_spans:
  "concat xss = [] \<Longrightarrow> traverse (traverse f) xss = Inr (map (\<lambda>c. []) xss)"
  by (induction xss) simp_all

section \<open>Claims about documents without speakers\<close>

text \<open>
  Claim C1. With an empty speaker sequence the augmented word sequence is the word
  sequence, but the forward map is the empty list, not the identity: as soon as some
  cluster has a span, the lookup of line 49 raises \<^verbatim>\<open>IndexError\<close>, for every
  tokenizer, and no encoded document is produced. Only a document without any span is
  encoded.
\<close>

theorem no_speakers_lookup_raises:
  "augment ss se tokens [] = (tokens, [], [])
   \<and> (concat clusters \<noteq> [] \<longrightarrow>
        tokenize ss se tokenizer tokens clusters [] = Inl IndexError)
   \<and> (concat clusters = [] \<longrightarrow>
        tokenize ss se tokenizer tokens clusters [] =
          (case py_index (enc_length (tokenizer tokens)) 0 of
             Inl e \<Rightarrow> Inl e
           | Inr n \<Rightarrow>
              Inr \<lparr>doc_tokens = tokens,
                   doc_input_ids = enc_input_ids (tokenizer tokens),
                   doc_length = n,
                   doc_gold_clusters = map (\<lambda>c. []) clusters,
                   doc_new_token_map = [],
                   doc_subtoken_map = enc_word_ids (tokenizer tokens)\<rparr>))"
proof (intro conjI impI)
  show "augment ss se tokens [] = (tokens, [], [])"
    by (simp add: augment_def)
next
  assume spans: "concat clusters \<noteq> []"
  have "realign_span enc [] sp = Inl IndexError" for enc sp
    by (cases sp) (simp add: realign_span_def py_index_def)
  then have "traverse (traverse (realign_span enc [])) clusters = Inl IndexError" for enc
    using spans by (intro traverse_first_error) simp_all
  then show "tokenize ss se tokenizer tokens clusters [] = Inl IndexError"
    by (simp add: tokenize_def augment_def)
next
  assume "concat clusters = []"
  then have "traverse (traverse (realign_span enc [])) clusters = Inr (map (\<lambda>c. []) clusters)"
    for enc
    by (rule traverse_no_spans)
  then show "tokenize ss se tokenizer tokens clusters [] =
          (case py_index (enc_length (tokenizer tokens)) 0 of
             Inl e \<Rightarrow> Inl e
           | Inr n \<Rightarrow>
              Inr \<lparr>doc_tokens = tokens,
                   doc_input_ids = enc_input_ids (tokenizer tokens),
                   doc_length = n,
                   doc_gold_clusters = map (\<lambda>c. []) clusters,
                   doc_new_token_map = [],
                   doc_subtoken_map = enc_word_ids (tokenizer tokens)\<rparr>)"
    by (simp add: tokenize_def augment_def Let_def)
qed

theorem no_speakers_lookup_raises_witness:
  "concat [[(0 :: int, 0 :: int)]] \<noteq> [] \<and>
   (\<forall>tokenizer. tokenize ''<s>'' ''</s>'' tokenizer [''Hi'', ''Bob''] [[(0, 0)]] [] = Inl IndexError)"
  using no_speakers_lookup_raises[of "''<s>''" "''</s>''" "[''Hi'', ''Bob'']" "[[(0, 0)]]"]
  by simp

text \<open>
  Claim C5. With an empty speaker sequence and at least one word, the augmented word
  sequence is the word sequence while the backward map is the empty list, so their
  lengths differ; the empty list is what the encoded document carries as its map.
\<close>

theorem no_speakers_backward_map_empty:
  assumes "tokens \<noteq> []"
  shows "(case augment ss se tokens [] of (nts, fwd, bwd) \<Rightarrow>
            nts = tokens \<and> bwd = [] \<and> length bwd \<noteq> length nts) \<and>
         (\<forall>d. tokenize ss se tokenizer tokens [] [] = Inr d \<longrightarrow> doc_new_token_map d = [])"
  using assms
  by (auto simp: augment_def tokenize_def Let_def split: sum.splits)

theorem no_speakers_backward_map_empty_witness:
  "[''Hi''] \<noteq> ([] :: string list) \<and>
   augment ''<s>'' ''</s>'' [''Hi''] [] = ([''Hi''], [], []) \<and>
   tokenize ''<s>'' ''</s>''
     (\<lambda>ws. \<lparr>enc_input_ids = [0, 7, 2], enc_length = [3],
             enc_word_to_tokens = (\<lambda>i. if i = 0 then Some (1, 2) else None),
             enc_word_ids = [None, Some 0, None]\<rparr>)
     [''Hi''] [] []
   = Inr \<lparr>doc_tokens = [''Hi''], doc_input_ids = [0, 7, 2], doc_length = 3,
          doc_gold_clusters = [], doc_new_token_map = [],
          doc_subtoken_map = [None, Some 0, None]\<rparr>"
  using no_speakers_backward_map_empty[of "[''Hi'']" "''<s>''" "''</s>''"]
  by (simp add: augment_def tokenize_def Let_def py_index_def)

text \<open>
  With speakers, whatever the two lengths, the backward map is as long as the augmented
  word sequence.
\<close>

lemma backward_map_length:
  "case add_speaker_information ss se tokens speakers of (nts, fwd, bwd) \<Rightarrow>
     length bwd = length nts \<and> length fwd = min (length tokens) (length speakers)"
  by (simp add: add_speaker_information_closed length_word_blocks length_origin_blocks)




lemma traverse_items_lists: "traverse items (map Lst xss) = Inr xss"
  by (induction xss) simp_all

lemma flatten_grouped: "flatten (Lst (map Lst xss)) = Inr (Lst (concat xss))"
  by (simp add: flatten_def traverse_items_lists)

lemma has_content_get_item:
  "has_content ex k \<Longrightarrow> \<exists>v. ex k = Some v \<and> truthy v \<and> get_item ex k = Inr v"
  by (auto simp: has_content_def get_item_def split: option.splits)

section \<open>Claims about normalisation\<close>




section \<open>Claims about the batch cache\<close>

text \<open>
  Claim C7. For a sampler whose collator is neither of the two supported variants,
  \<^verbatim>\<open>create_batches\<close> raises \<^verbatim>\<open>NotImplementedError\<close> (the specification's
  \<open>UnsupportedCollatorError\<close>) and leaves the world as it was: nothing is loaded, no
  batch is drawn from the sampler, nothing is saved.
\<close>

theorem unsupported_collator_raises:
  assumes "collator sampler \<noteq> LeftOversCollator" and "collator sampler \<noteq> PadCollator"
  shows "create_batches hash_files hash_key from_dict sampler dataset_files cache_dir w =
           (Inl NotImplementedError, w)"
  using assms
  by (cases "collator sampler")
     (simp_all add: create_batches_def dataset_path_def cache_key_def collator_key_def)

theorem unsupported_collator_raises_witness:
  "OtherCollator \<noteq> LeftOversCollator \<and> OtherCollator \<noteq> PadCollator \<and>
   create_batches (\<lambda>fs. concat fs) (\<lambda>k. CHR ''h'' # k) (\<lambda>d. Inr d)
     \<lparr>collator = OtherCollator, dataset = [''doc''], batches_of = [[(''input_ids'', [1 :: nat])]]\<rparr>
     [''train.jsonl''] ''cache''
     \<lparr>disk = (\<lambda>p. Inl FileNotFoundError), save_failure = (\<lambda>p. None), events = []\<rparr>
   = (Inl NotImplementedError,
      \<lparr>disk = (\<lambda>p. Inl FileNotFoundError), save_failure = (\<lambda>p. None), events = []\<rparr>)"
  using unsupported_collator_raises[of
      "\<lparr>collator = OtherCollator, dataset = [''doc''], batches_of = [[(''input_ids'', [1 :: nat])]]\<rparr>"
      "\<lambda>fs. concat fs" "\<lambda>k. CHR ''h'' # k" "\<lambda>d. Inr d" "[''train.jsonl'']" "''cache''"
      "\<lparr>disk = (\<lambda>p. Inl FileNotFoundError), save_failure = (\<lambda>p. None), events = []\<rparr>"]
  by simp





lemma map_of_dict_append:
  "map_of (dict_append d k v) k' =
     (if k' = k then Some ((case map_of d k of None \<Rightarrow> [] | Some vs \<Rightarrow> vs) @ [v])
      else map_of d k')"
  by (induction d k v rule: dict_append.induct) auto

lemma holds_dict_append:
  "holds_values d k' xs \<Longrightarrow>
     holds_values (dict_append d k v) k' (xs @ (if k' = k then [v] else []))"
  by (auto simp: holds_values_def map_of_dict_append)

lemma holds_add_batch:
  "holds_values d k xs \<Longrightarrow>
     holds_values (add_batch d b) k (xs @ map snd (filter (\<lambda>kv. fst kv = k) b))"
proof (induction d b arbitrary: xs rule: add_batch.induct)
  case (1 d)
  then show ?case by simp
next
  case (2 d k' v kvs)
  from holds_dict_append[OF "2.prems", of k' v]
  have "holds_values (add_batch (dict_append d k' v) kvs) k
          ((xs @ (if k = k' then [v] else [])) @ map snd (filter (\<lambda>kv. fst kv = k) kvs))"
    by (rule "2.IH")
  then show ?case by (cases "k = k'") auto
qed

lemma holds_collect_batches:
  "holds_values d k xs \<Longrightarrow> holds_values (collect_batches d bs) k (xs @ field_values k bs)"
proof (induction bs arbitrary: d xs)
  case Nil
  then show ?case by (simp add: field_values_def)
next
  case (Cons b bs)
  from Cons.IH[OF holds_add_batch[OF Cons.prems, of b]]
  show ?case by (simp add: field_values_def)
qed

lemma collect_batches_fields:
  "map_of (collect_batches [] bs) k =
     (if field_values k bs = [] then None else Some (field_values k bs))"
proof -
  have "holds_values ([] :: (string \<times> 'a list) list) k []" by (simp add: holds_values_def)
  from holds_collect_batches[OF this, of bs] show ?thesis by (simp add: holds_values_def)
qed

text \<open>
  Claim C9. For a supported collator, with \<open>path\<close> the cache path: a collection that
  loads is returned as it is and nothing else happens; an exception of the load other
  than "not found" is the result and nothing else happens; on "not found" every batch of
  the sampler is drawn, the fields are collected, and the collection is saved at \<open>path\<close>
  and returned, an exception of the conversion or of the save being the result. The
  collected dictionary has, for every field, the values of that field in batch order.
\<close>

theorem lookup_store_protocol:
  fixes hash_files :: "'f \<Rightarrow> string" and hash_key :: "string \<Rightarrow> string"
    and from_dict :: "(string \<times> 'v list) list \<Rightarrow> error + 'ds"
    and sampler :: "('doc, 'v) sampler" and dataset_files :: 'f and cache_dir :: string
  assumes "dataset_path hash_files hash_key cache_dir (collator sampler) dataset_files = Inr path"
  defines "run \<equiv> create_batches hash_files hash_key from_dict sampler dataset_files cache_dir"
    and "bs \<equiv> batches_of sampler"
  shows "(\<forall>ds. disk w path = Inr ds \<longrightarrow>
            run w = (Inr ds, w\<lparr>events := events w @ [LoadFromDisk path]\<rparr>))
       \<and> (\<forall>e. disk w path = Inl e \<and> e \<noteq> FileNotFoundError \<longrightarrow>
            run w = (Inl e, w\<lparr>events := events w @ [LoadFromDisk path]\<rparr>))
       \<and> (disk w path = Inl FileNotFoundError \<longrightarrow>
            (\<forall>ds. from_dict (collect_batches [] bs) = Inr ds \<and> save_failure w path = None \<longrightarrow>
               run w = (Inr ds,
                 w\<lparr>disk := (disk w)(path := Inr ds),
                   events := events w @ [LoadFromDisk path] @ replicate (length bs) NextBatch
                               @ [SaveToDisk path]\<rparr>))
          \<and> (\<forall>ds e. from_dict (collect_batches [] bs) = Inr ds \<and> save_failure w path = Some e \<longrightarrow>
               run w = (Inl e,
                 w\<lparr>events := events w @ [LoadFromDisk path] @ replicate (length bs) NextBatch
                               @ [SaveToDisk path]\<rparr>))
          \<and> (\<forall>e. from_dict (collect_batches [] bs) = Inl e \<longrightarrow>
               run w = (Inl e,
                 w\<lparr>events := events w @ [LoadFromDisk path] @ replicate (length bs) NextBatch\<rparr>)))
       \<and> (\<forall>k. map_of (collect_batches [] bs) k =
            (if field_values k bs = [] then None else Some (field_values k bs)))"
proof (intro conjI allI impI)
  fix ds assume "disk w path = Inr ds"
  then show "run w = (Inr ds, w\<lparr>events := events w @ [LoadFromDisk path]\<rparr>)"
    using assms(1) by (simp add: run_def create_batches_def load_from_disk_def)
next
  fix e assume "disk w path = Inl e \<and> e \<noteq> FileNotFoundError"
  then show "run w = (Inl e, w\<lparr>events := events w @ [LoadFromDisk path]\<rparr>)"
    using assms(1) by (simp add: run_def create_batches_def load_from_disk_def)
next
  fix ds
  assume "disk w path = Inl FileNotFoundError"
    and "from_dict (collect_batches [] bs) = Inr ds \<and> save_failure w path = None"
  then show "run w = (Inr ds,
      w\<lparr>disk := (disk w)(path := Inr ds),
        events := events w @ [LoadFromDisk path] @ replicate (length bs) NextBatch
                    @ [SaveToDisk path]\<rparr>)"
    using assms(1)
    by (simp add: run_def bs_def create_batches_def load_from_disk_def save_to_disk_def Let_def)
next
  fix ds e
  assume "disk w path = Inl FileNotFoundError"
    and "from_dict (collect_batches [] bs) = Inr ds \<and> save_failure w path = Some e"
  then show "run w = (Inl e,
      w\<lparr>events := events w @ [LoadFromDisk path] @ replicate (length bs) NextBatch
                    @ [SaveToDisk path]\<rparr>)"
    using assms(1)
    by (simp add: run_def bs_def create_batches_def load_from_disk_def save_to_disk_def Let_def)
next
  fix e
  assume "disk w path = Inl FileNotFoundError"
    and "from_dict (collect_batches [] bs) = Inl e"
  then show "run w = (Inl e,
      w\<lparr>events := events w @ [LoadFromDisk path] @ replicate (length bs) NextBatch\<rparr>)"
    using assms(1)
    by (simp add: run_def bs_def create_batches_def load_from_disk_def Let_def)
next
  fix k
  show "map_of (collect_batches [] bs) k =
      (if field_values k bs = [] then None else Some (field_values k bs))"
    by (rule collect_batches_fields)
qed

theorem lookup_store_protocol_witness:
  "dataset_path (\<lambda>fs. concat fs) (\<lambda>k. CHR ''h'' # k) ''cache'' PadCollator [''train.jsonl'']
     = Inr ''cache/htrain.jsonl_longformer_collator''
   \<and> create_batches (\<lambda>fs. concat fs) (\<lambda>k. CHR ''h'' # k) (\<lambda>d. Inr d)
       \<lparr>collator = PadCollator, dataset = [''doc''],
        batches_of = [[(''input_ids'', [1 :: nat]), (''mask'', [2])], [(''input_ids'', [3]), (''mask'', [4])]]\<rparr>
       [''train.jsonl''] ''cache''
       \<lparr>disk = (\<lambda>p. Inr [(''input_ids'', [[7]])]), save_failure = (\<lambda>p. None), events = []\<rparr>
     = (Inr [(''input_ids'', [[7]])],
        \<lparr>disk = (\<lambda>p. Inr [(''input_ids'', [[7]])]), save_failure = (\<lambda>p. None),
         events = [LoadFromDisk ''cache/htrain.jsonl_longformer_collator'']\<rparr>)
   \<and> create_batches (\<lambda>fs. concat fs) (\<lambda>k. CHR ''h'' # k) (\<lambda>d. Inr d)
       \<lparr>collator = PadCollator, dataset = [''doc''],
        batches_of = [[(''input_ids'', [1 :: nat]), (''mask'', [2])], [(''input_ids'', [3]), (''mask'', [4])]]\<rparr>
       [''train.jsonl''] ''cache''
       \<lparr>disk = (\<lambda>p. Inl (OtherError ''corrupt'')), save_failure = (\<lambda>p. None), events = []\<rparr>
     = (Inl (OtherError ''corrupt''),
        \<lparr>disk = (\<lambda>p. Inl (OtherError ''corrupt'')), save_failure = (\<lambda>p. None),
         events = [LoadFromDisk ''cache/htrain.jsonl_longformer_collator'']\<rparr>)
   \<and> create_batches (\<lambda>fs. concat fs) (\<lambda>k. CHR ''h'' # k) (\<lambda>d. Inr d)
       \<lparr>collator = PadCollator, dataset = [''doc''],
        batches_of = [[(''input_ids'', [1 :: nat]), (''mask'', [2])], [(''input_ids'', [3]), (''mask'', [4])]]\<rparr>
       [''train.jsonl''] ''cache''
       \<lparr>disk = (\<lambda>p. Inl FileNotFoundError), save_failure = (\<lambda>p. None), events = []\<rparr>
     = (Inr [(''input_ids'', [[1], [3]]), (''mask'', [[2], [4]])],
        \<lparr>disk = (\<lambda>p. Inl FileNotFoundError)
                 (''cache/htrain.jsonl_longformer_collator'' :=
                    Inr [(''input_ids'', [[1], [3]]), (''mask'', [[2], [4]])]),
         save_failure = (\<lambda>p. None),
         events = [LoadFromDisk ''cache/htrain.jsonl_longformer_collator'', NextBatch, NextBatch,
                   SaveToDisk ''cache/htrain.jsonl_longformer_collator'']\<rparr>)
   \<and> create_batches (\<lambda>fs. concat fs) (\<lambda>k. CHR ''h'' # k) (\<lambda>d. Inr d)
       \<lparr>collator = PadCollator, dataset = [''doc''],
        batches_of = [[(''input_ids'', [1 :: nat]), (''mask'', [2])], [(''input_ids'', [3]), (''mask'', [4])]]\<rparr>
       [''train.jsonl''] ''cache''
       \<lparr>disk = (\<lambda>p. Inl FileNotFoundError), save_failure = (\<lambda>p. Some (OtherError ''full'')),
        events = []\<rparr>
     = (Inl (OtherError ''full''),
        \<lparr>disk = (\<lambda>p. Inl FileNotFoundError), save_failure = (\<lambda>p. Some (OtherError ''full'')),
         events = [LoadFromDisk ''cache/htrain.jsonl_longformer_collator'', NextBatch, NextBatch,
                   SaveToDisk ''cache/htrain.jsonl_longformer_collator'']\<rparr>)
   \<and> field_values ''mask''
        [[(''input_ids'', [1 :: nat]), (''mask'', [2])], [(''input_ids'', [3]), (''mask'', [4])]]
     = [[2], [4]]"
proof -
  let ?sampler = "\<lparr>collator = PadCollator, dataset = [''doc''],
        batches_of = [[(''input_ids'', [1 :: nat]), (''mask'', [2])], [(''input_ids'', [3]), (''mask'', [4])]]\<rparr>"
  let ?p = "''cache/htrain.jsonl_longformer_collator''"
  have p: "dataset_path (\<lambda>fs. concat fs) (\<lambda>k. CHR ''h'' # k) ''cache'' (collator ?sampler)
      [''train.jsonl''] = Inr ?p"
    by (simp add: dataset_path_def cache_key_def collator_key_def path_join_def)
  note t = lookup_store_protocol[OF p, where from_dict = "\<lambda>d. Inr d"]
  show ?thesis
    using p
      t[of "\<lparr>disk = (\<lambda>p. Inr [(''input_ids'', [[7]])]), save_failure = (\<lambda>p. None), events = []\<rparr>"]
      t[of "\<lparr>disk = (\<lambda>p. Inl (OtherError ''corrupt'')), save_failure = (\<lambda>p. None), events = []\<rparr>"]
      t[of "\<lparr>disk = (\<lambda>p. Inl FileNotFoundError), save_failure = (\<lambda>p. None), events = []\<rparr>"]
      t[of "\<lparr>disk = (\<lambda>p. Inl FileNotFoundError), save_failure = (\<lambda>p. Some (OtherError ''full'')), events = []\<rparr>"]
    by (simp add: field_values_def)
qed

end
